theory Spec2Isabelle
  imports Main "HOL-Library.Sublist"
begin

section \<open>The shopping cart of ShoppingCartContext.tsx\<close>

text \<open>
  The provider component of \<^verbatim>\<open>src/context/ShoppingCartContext.tsx\<close> keeps two pieces of
  state: the flag \<^verbatim>\<open>isOpen\<close> and the array \<^verbatim>\<open>cartItems\<close>. Every operation on the
  array is a pure function from the current array to the next one, handed to the setter
  \<^verbatim>\<open>setCartItems\<close>. The functions below are those updater functions, in the order of the
  source, with the array as a list.

  Numbers: the fields \<^verbatim>\<open>id\<close> and \<^verbatim>\<open>quantity\<close> have the TypeScript type \<^verbatim>\<open>number\<close>,
  a binary64 floating-point value. The cart stores integers in them (identifiers, and
  counts moved by one), so a field is an \<open>int\<close>, standing for the number with that
  integer value. Identifiers are only compared. Quantities are added to, and the sum of
  two numbers is the exact sum rounded to the nearest binary64 value: the arithmetic of
  the source is modelled with that rounding (subsection Numbers). Numbers that are not
  integers, infinite or \<^verbatim>\<open>NaN\<close> are not values of a field in this model, and the sign
  of zero is not kept.
\<close>

subsection \<open>Data\<close>

text \<open>
  \<^verbatim>\<open>type CartItem = { id: number; quantity: number }\<close>. The field \<^verbatim>\<open>id\<close> is called
  \<open>itemId\<close> here, since \<open>id\<close> is the identity function of HOL.
\<close>

record CartItem =
  itemId :: int
  quantity :: int

text \<open>The two \<^verbatim>\<open>useState\<close>-like cells of \<^verbatim>\<open>ShoppingCartProvider\<close>.\<close>

record CartState =
  isOpen :: bool
  cartItems :: "CartItem list"

subsection \<open>Numbers\<close>

text \<open>
  The number of binary digits of a positive integer; 0 for an integer that is not positive.
\<close>

function bitlen :: "int \<Rightarrow> nat" where
  "bitlen a = (if a \<le> 0 then 0 else Suc (bitlen (a div 2)))"
  by pat_completeness auto
termination
  by (relation "measure nat") auto

declare bitlen.simps [simp del]

text \<open>
  The binary64 value nearest to an integer \<open>x\<close>, ties going to the even significand (the
  rounding of every arithmetic operation of the language), before the exponent range is
  looked at. A binary64 significand has 53 binary digits: an integer of at most 53 digits
  is kept as it is; a longer one loses its low \<open>bitlen \<bar>x\<bar> - 53\<close> digits, the unit \<open>u\<close>
  being the weight of the last digit kept, \<open>q\<close> the digits kept and \<open>r\<close> the digits lost.
\<close>

definition round64 :: "int \<Rightarrow> int" where
  "round64 x =
     (let a = \<bar>x\<bar>;
          u = 2 ^ (bitlen a - 53);
          q = a div u;
          r = a mod u;
          q' = (if u < 2 * r \<or> (u = 2 * r \<and> odd q) then q + 1 else q)
      in sgn x * (q' * u))"

text \<open>
  The results an addition of integer-valued numbers can have. A rounded magnitude of
  \<open>2 ^ 1024\<close> or more is beyond the largest finite binary64 value and becomes an infinity.
\<close>

datatype number = Finite int | PosInfinity | NegInfinity | NaN

definition nearest :: "int \<Rightarrow> number" where
  "nearest s =
     (let r = round64 s
      in if 2 ^ 1024 \<le> r then PosInfinity
         else if r \<le> - (2 ^ 1024) then NegInfinity
         else Finite r)"

text \<open>The operator \<^verbatim>\<open>+\<close> on numbers.\<close>

fun plus_number :: "number \<Rightarrow> number \<Rightarrow> number" where
  "plus_number NaN y = NaN"
| "plus_number x NaN = NaN"
| "plus_number PosInfinity NegInfinity = NaN"
| "plus_number NegInfinity PosInfinity = NaN"
| "plus_number PosInfinity y = PosInfinity"
| "plus_number x PosInfinity = PosInfinity"
| "plus_number NegInfinity y = NegInfinity"
| "plus_number x NegInfinity = NegInfinity"
| "plus_number (Finite x) (Finite y) = nearest (x + y)"

text \<open>
  The integers that are values of finite numbers: those that rounding leaves as they are,
  within the exponent range.
\<close>

definition is_number :: "int \<Rightarrow> bool" where
  "is_number x \<longleftrightarrow> round64 x = x \<and> \<bar>x\<bar> < 2 ^ 1024"

text \<open>
  \<^verbatim>\<open>x + y\<close> and \<^verbatim>\<open>x - y\<close> where the result is stored in a field again. The cart only
  adds and subtracts 1, and a finite number plus or minus 1 is finite (lemmas
  \<open>plus_one_finite\<close> and \<open>minus_one_finite\<close> below), so the result is the rounded integer.
\<close>

definition js_add :: "int \<Rightarrow> int \<Rightarrow> int" where
  "js_add x y = round64 (x + y)"

definition js_sub :: "int \<Rightarrow> int \<Rightarrow> int" where
  "js_sub x y = round64 (x - y)"

subsection \<open>JavaScript operators used by the source\<close>

text \<open>
  \<^verbatim>\<open>xs.find(p)\<close> is the first element satisfying \<^verbatim>\<open>p\<close>, or \<^verbatim>\<open>undefined\<close>: this is
  \<^const>\<open>find\<close> of the list library, with \<open>None\<close> for \<^verbatim>\<open>undefined\<close>.
  \<^verbatim>\<open>v?.quantity\<close> is \<^verbatim>\<open>undefined\<close> when \<^verbatim>\<open>v\<close> is, and the field otherwise.
\<close>

definition opt_quantity :: "CartItem option \<Rightarrow> int option" where
  "opt_quantity v = (case v of None \<Rightarrow> None | Some item \<Rightarrow> Some (quantity item))"

text \<open>
  \<^verbatim>\<open>v || d\<close> on a value that is a number or \<^verbatim>\<open>undefined\<close>: the left operand when it is
  truthy, the right one otherwise. \<^verbatim>\<open>undefined\<close> and \<^verbatim>\<open>0\<close> are falsy; every other
  integer is truthy.
\<close>

definition js_or :: "int option \<Rightarrow> int \<Rightarrow> int" where
  "js_or v d = (case v of None \<Rightarrow> d | Some q \<Rightarrow> if q = 0 then d else q)"

subsection \<open>Reads\<close>

text \<open>
  \<^verbatim>\<open>cartItems.reduce((quantity, item) => item.quantity + quantity, 0)\<close>: a left fold
  from 0, each step an addition of numbers.
\<close>

definition cartQuantity :: "CartItem list \<Rightarrow> number" where
  "cartQuantity items =
     foldl (\<lambda>q item. plus_number (Finite (quantity item)) q) (Finite 0) items"

text \<open>\<^verbatim>\<open>cartItems.find((item) => item.id === id)?.quantity || 0\<close>\<close>

definition getItemQuantity :: "CartItem list \<Rightarrow> int \<Rightarrow> int" where
  "getItemQuantity items i =
     js_or (opt_quantity (find (\<lambda>item. itemId item = i) items)) 0"

subsection \<open>Updater functions\<close>

text \<open>
  The body of the arrow function given to \<^verbatim>\<open>setCartItems\<close> in
  \<^verbatim>\<open>increaseCartQuantity\<close>. \<^verbatim>\<open>find(...) == null\<close> holds exactly when nothing is found.
\<close>

definition increaseCartQuantity :: "int \<Rightarrow> CartItem list \<Rightarrow> CartItem list" where
  "increaseCartQuantity i currItems =
     (if find (\<lambda>item. itemId item = i) currItems = None
      then currItems @ [\<lparr>itemId = i, quantity = 1\<rparr>]
      else map (\<lambda>item. if itemId item = i
                        then item\<lparr>quantity := js_add (quantity item) 1\<rparr>
                        else item) currItems)"

text \<open>
  The updater of \<^verbatim>\<open>decreaseCartQuantity\<close>. The test
  \<^verbatim>\<open>find(...)?.quantity === 1\<close> is false when nothing is found (\<^verbatim>\<open>undefined === 1\<close>),
  so an absent identifier takes the \<^verbatim>\<open>map\<close> branch.
\<close>

definition decreaseCartQuantity :: "int \<Rightarrow> CartItem list \<Rightarrow> CartItem list" where
  "decreaseCartQuantity i currItems =
     (if opt_quantity (find (\<lambda>item. itemId item = i) currItems) = Some 1
      then filter (\<lambda>item. itemId item \<noteq> i) currItems
      else map (\<lambda>item. if itemId item = i
                        then item\<lparr>quantity := js_sub (quantity item) 1\<rparr>
                        else item) currItems)"

text \<open>The updater of \<^verbatim>\<open>removeFromCart\<close>.\<close>

definition removeFromCart :: "int \<Rightarrow> CartItem list \<Rightarrow> CartItem list" where
  "removeFromCart i currItems = filter (\<lambda>item. itemId item \<noteq> i) currItems"

subsection \<open>The state and its transitions\<close>

text \<open>
  Modelled from the spec: the hook \<^verbatim>\<open>useLocalStorage\<close> (imported from
  \<^verbatim>\<open>../hooks/useLocalStorage\<close>) is not among the sources. The specification describes it
  as a durable slot that is read once at start-up and written on every change, so its
  setter, called with an updater function, replaces the current array by the updater's
  result, as the setter of \<^verbatim>\<open>useState\<close> does.
\<close>

definition setCartItems :: "(CartItem list \<Rightarrow> CartItem list) \<Rightarrow> CartState \<Rightarrow> CartState" where
  "setCartItems upd s = s\<lparr>cartItems := upd (cartItems s)\<rparr>"

definition openCart :: "CartState \<Rightarrow> CartState" where
  "openCart s = s\<lparr>isOpen := True\<rparr>"

definition closeCart :: "CartState \<Rightarrow> CartState" where
  "closeCart s = s\<lparr>isOpen := False\<rparr>"

text \<open>
  The calls a consumer of the context can make that change state, and the state after a
  sequence of them. The provider starts with \<^verbatim>\<open>useState(false)\<close> and the default
  \<^verbatim>\<open>[]\<close> of the cart.
\<close>

datatype action =
    OpenCart
  | CloseCart
  | IncreaseCartQuantity int
  | DecreaseCartQuantity int
  | RemoveFromCart int

fun step :: "CartState \<Rightarrow> action \<Rightarrow> CartState" where
  "step s OpenCart = openCart s"
| "step s CloseCart = closeCart s"
| "step s (IncreaseCartQuantity i) = setCartItems (increaseCartQuantity i) s"
| "step s (DecreaseCartQuantity i) = setCartItems (decreaseCartQuantity i) s"
| "step s (RemoveFromCart i) = setCartItems (removeFromCart i) s"

definition initial :: CartState where
  "initial = \<lparr>isOpen = False, cartItems = []\<rparr>"

definition run :: "action list \<Rightarrow> CartState" where
  "run acts = foldl step initial acts"

subsection \<open>The invariants of the specification\<close>

definition unique_ids :: "CartItem list \<Rightarrow> bool" where
  "unique_ids items = distinct (map itemId items)"

definition positive_quantities :: "CartItem list \<Rightarrow> bool" where
  "positive_quantities items = list_all (\<lambda>item. 1 \<le> quantity item) items"

section \<open>Auxiliary facts\<close>

subsection \<open>Rounding\<close>

lemma bitlen_lower: "0 < a \<Longrightarrow> 2 ^ (bitlen a - 1) \<le> a"
proof (induction a rule: bitlen.induct)
  case (1 a)
  show ?case
  proof (cases "a div 2 \<le> 0")
    case True
    with 1(2) have "a = 1" by linarith
    then show ?thesis by (simp add: bitlen.simps)
  next
    case False
    with 1 have ih: "2 ^ (bitlen (a div 2) - 1) \<le> a div 2" by simp
    from False have "0 < bitlen (a div 2)"
      by (subst bitlen.simps) simp
    then have "(2::int) ^ bitlen (a div 2) = 2 * 2 ^ (bitlen (a div 2) - 1)"
      by (cases "bitlen (a div 2)") simp_all
    with ih have "2 ^ bitlen (a div 2) \<le> a" by linarith
    with 1(2) show ?thesis by (subst bitlen.simps) simp
  qed
qed

lemma bitlen_le: "a < 2 ^ k \<Longrightarrow> bitlen a \<le> k"
proof (cases "a \<le> 0")
  case True
  then show ?thesis by (simp add: bitlen.simps)
next
  case False
  assume "a < 2 ^ k"
  from False have "(2::int) ^ (bitlen a - 1) \<le> a"
    by (intro bitlen_lower) simp
  also note \<open>a < 2 ^ k\<close>
  finally have "bitlen a - 1 < k"
    by (rule power_less_imp_less_exp [rotated]) simp
  then show ?thesis by linarith
qed

lemma round64_small: "\<bar>x\<bar> < 2 ^ 53 \<Longrightarrow> round64 x = x"
proof -
  assume "\<bar>x\<bar> < 2 ^ 53"
  then have "bitlen \<bar>x\<bar> \<le> 53" by (rule bitlen_le)
  then have "bitlen \<bar>x\<bar> - 53 = 0" by simp
  then show ?thesis
    by (simp add: round64_def Let_def mult_sgn_abs)
qed

lemma round64_exact: "\<bar>x\<bar> \<le> 2 ^ 53 \<Longrightarrow> round64 x = x"
proof -
  assume a: "\<bar>x\<bar> \<le> 2 ^ 53"
  have p: "round64 9007199254740992 = 9007199254740992"
    by code_simp
  have n: "round64 (- 9007199254740992) = - 9007199254740992"
    by code_simp
  have e: "(2::int) ^ 53 = 9007199254740992"
    by simp
  from a e consider "\<bar>x\<bar> < 2 ^ 53" | "x = 9007199254740992" | "x = - 9007199254740992"
    by linarith
  then show ?thesis
  proof cases
    case 1
    then show ?thesis by (rule round64_small)
  next
    case 2
    with p show ?thesis by simp
  next
    case 3
    with n show ?thesis by simp
  qed
qed

lemma round64_pos: "1 \<le> x \<Longrightarrow> 1 \<le> round64 x"
proof -
  assume x: "1 \<le> x"
  define u :: int where "u = 2 ^ (bitlen \<bar>x\<bar> - 53)"
  from x have a: "0 < \<bar>x\<bar>" by simp
  have "u \<le> 2 ^ (bitlen \<bar>x\<bar> - 1)"
    unfolding u_def by (rule power_increasing) simp_all
  also from a have "\<dots> \<le> \<bar>x\<bar>" by (rule bitlen_lower)
  finally have "u \<le> \<bar>x\<bar>" .
  moreover have u: "0 < u" by (simp add: u_def)
  ultimately have q: "1 \<le> \<bar>x\<bar> div u"
    using pos_imp_zdiv_pos_iff [of u "\<bar>x\<bar>"] by linarith
  let ?q' = "if u < 2 * (\<bar>x\<bar> mod u) \<or> (u = 2 * (\<bar>x\<bar> mod u) \<and> odd (\<bar>x\<bar> div u))
             then \<bar>x\<bar> div u + 1 else \<bar>x\<bar> div u"
  from q have "1 \<le> ?q'" by simp
  with u have "1 * 1 \<le> ?q' * u"
    by (intro mult_mono) simp_all
  then have "1 \<le> ?q' * u" by simp
  moreover from x have "round64 x = ?q' * u"
    by (simp add: round64_def Let_def u_def)
  ultimately show ?thesis by linarith
qed

lemma bitlen_upper: "a < 2 ^ bitlen a"
proof (induction a rule: bitlen.induct)
  case (1 a)
  show ?case
  proof (cases "a \<le> 0")
    case True
    then show ?thesis by (simp add: bitlen.simps)
  next
    case False
    with 1 have "a div 2 < 2 ^ bitlen (a div 2)" by simp
    then have "a < 2 * 2 ^ bitlen (a div 2)" by linarith
    with False show ?thesis by (subst bitlen.simps) simp
  qed
qed

lemma round64_abs:
  "\<exists>q'. 0 \<le> q' \<and> \<bar>round64 x\<bar> = q' * 2 ^ (bitlen \<bar>x\<bar> - 53)
        \<and> 2 * (q' * 2 ^ (bitlen \<bar>x\<bar> - 53)) \<le> 2 * \<bar>x\<bar> + 2 ^ (bitlen \<bar>x\<bar> - 53)"
proof (cases "x = 0")
  case True
  then show ?thesis
    by (intro exI [of _ 0]) (simp add: round64_def Let_def)
next
  case False
  define u :: int where "u = 2 ^ (bitlen \<bar>x\<bar> - 53)"
  define q where "q = \<bar>x\<bar> div u"
  define r where "r = \<bar>x\<bar> mod u"
  define q' where "q' = (if u < 2 * r \<or> (u = 2 * r \<and> odd q) then q + 1 else q)"
  have u: "0 < u" by (simp add: u_def)
  then have q: "0 \<le> q" by (simp add: q_def pos_imp_zdiv_nonneg_iff)
  then have q': "0 \<le> q'" by (simp add: q'_def)
  have x: "\<bar>x\<bar> = q * u + r" by (simp add: q_def r_def)
  have "round64 x = sgn x * (q' * u)"
    by (simp add: round64_def Let_def u_def q_def r_def q'_def)
  with False u q' have "\<bar>round64 x\<bar> = q' * u"
    by (simp add: abs_mult abs_sgn_eq)
  moreover have "2 * (q' * u) \<le> 2 * \<bar>x\<bar> + u"
  proof (cases "q' = q")
    case True
    have "0 \<le> r" using u by (simp add: r_def)
    with True x u show ?thesis by simp
  next
    case False
    then have "q' = q + 1" and "u \<le> 2 * r"
      by (auto simp: q'_def split: if_splits)
    with x show ?thesis by (simp add: algebra_simps)
  qed
  ultimately show ?thesis
    using q' unfolding u_def by blast
qed

lemma round64_finite:
  assumes "\<bar>s\<bar> \<le> 2 ^ 1024 - 2 ^ 971 + 1"
  shows "\<bar>round64 s\<bar> < 2 ^ 1024"
proof -
  define B :: int where "B = 2 ^ 970"
  have B: "0 < B" by (simp add: B_def)
  have e971: "(2::int) ^ 971 = 2 * B"
    and e1024: "(2::int) ^ 1024 = 18014398509481984 * B"
    unfolding B_def by simp_all
  from assms B have "\<bar>s\<bar> < 2 ^ 1024"
    unfolding e971 e1024 by linarith
  then have "bitlen \<bar>s\<bar> \<le> 1024" by (rule bitlen_le)
  then have "(2::int) ^ (bitlen \<bar>s\<bar> - 53) \<le> 2 ^ 971"
    by (intro power_increasing) simp_all
  moreover obtain q' where "\<bar>round64 s\<bar> = q' * 2 ^ (bitlen \<bar>s\<bar> - 53)"
    and "2 * (q' * 2 ^ (bitlen \<bar>s\<bar> - 53)) \<le> 2 * \<bar>s\<bar> + 2 ^ (bitlen \<bar>s\<bar> - 53)"
    using round64_abs [of s] by blast
  ultimately have "2 * \<bar>round64 s\<bar> \<le> 2 * \<bar>s\<bar> + 2 ^ 971"
    by linarith
  moreover have "2 \<le> B"
    unfolding B_def by simp
  ultimately show ?thesis
    using assms unfolding e971 e1024 by linarith
qed

lemma is_number_le_max:
  assumes "is_number x"
  shows "\<bar>x\<bar> \<le> 2 ^ 1024 - 2 ^ 971"
proof -
  define B :: int where "B = 2 ^ 970"
  have B: "0 < B" by (simp add: B_def)
  have e971: "(2::int) ^ 971 = 2 * B"
    and e1023: "(2::int) ^ 1023 = 9007199254740992 * B"
    and e1024: "(2::int) ^ 1024 = 18014398509481984 * B"
    unfolding B_def by simp_all
  from assms have r: "round64 x = x" and lt: "\<bar>x\<bar> < 2 ^ 1024"
    by (simp_all add: is_number_def)
  from lt have bl: "bitlen \<bar>x\<bar> \<le> 1024" by (rule bitlen_le)
  show ?thesis
  proof (cases "bitlen \<bar>x\<bar> = 1024")
    case True
    obtain q' where "\<bar>round64 x\<bar> = q' * 2 ^ (bitlen \<bar>x\<bar> - 53)"
      using round64_abs [of x] by blast
    moreover from True have "bitlen \<bar>x\<bar> - 53 = 971"
      by simp
    ultimately have x: "\<bar>x\<bar> = q' * (2 * B)"
      by (simp only: r e971)
    with lt have "q' * (2 * B) < 9007199254740992 * (2 * B)"
      unfolding e1024 by linarith
    with B have "q' < 9007199254740992"
      by (simp only: mult_less_cancel_right_pos [of "2 * B"])
    then have "q' \<le> 9007199254740991"
      by simp
    with B have "q' * (2 * B) \<le> 9007199254740991 * (2 * B)"
      by (intro mult_right_mono) simp_all
    with x show ?thesis
      unfolding e971 e1024 by linarith
  next
    case False
    with bl have "bitlen \<bar>x\<bar> \<le> 1023" by simp
    then have "(2::int) ^ bitlen \<bar>x\<bar> \<le> 2 ^ 1023"
      by (intro power_increasing) simp_all
    with bitlen_upper [of "\<bar>x\<bar>"] have "\<bar>x\<bar> < 2 ^ 1023" by linarith
    with B show ?thesis
      unfolding e971 e1023 e1024 by linarith
  qed
qed

lemma plus_one_finite:
  assumes "is_number x"
  shows "plus_number (Finite x) (Finite 1) = Finite (js_add x 1)"
proof -
  from assms have "\<bar>x + 1\<bar> \<le> 2 ^ 1024 - 2 ^ 971 + 1"
    using is_number_le_max [of x] by linarith
  then have "\<bar>round64 (x + 1)\<bar> < 2 ^ 1024"
    by (rule round64_finite)
  then have "\<not> 2 ^ 1024 \<le> round64 (x + 1)" and "\<not> round64 (x + 1) \<le> - (2 ^ 1024)"
    by linarith+
  then show ?thesis
    by (simp only: plus_number.simps nearest_def js_add_def js_sub_def Let_def if_False)
qed

lemma minus_one_finite:
  assumes "is_number x"
  shows "plus_number (Finite x) (Finite (- 1)) = Finite (js_sub x 1)"
proof -
  from assms have "\<bar>x - 1\<bar> \<le> 2 ^ 1024 - 2 ^ 971 + 1"
    using is_number_le_max [of x] by linarith
  then have "\<bar>round64 (x - 1)\<bar> < 2 ^ 1024"
    by (rule round64_finite)
  then have "\<not> 2 ^ 1024 \<le> round64 (x - 1)" and "\<not> round64 (x - 1) \<le> - (2 ^ 1024)"
    by linarith+
  moreover have "x + - 1 = x - 1" by simp
  ultimately show ?thesis
    by (simp only: plus_number.simps nearest_def js_add_def js_sub_def Let_def if_False)
qed

lemma js_add_exact: "\<bar>x + y\<bar> \<le> 2 ^ 53 \<Longrightarrow> js_add x y = x + y"
  by (simp only: js_add_def round64_exact)

lemma js_sub_exact: "\<bar>x - y\<bar> \<le> 2 ^ 53 \<Longrightarrow> js_sub x y = x - y"
  by (simp only: js_sub_def round64_exact)

lemma nearest_exact: "\<bar>s\<bar> \<le> 2 ^ 53 \<Longrightarrow> nearest s = Finite s"
proof -
  assume a: "\<bar>s\<bar> \<le> 2 ^ 53"
  have "(2::int) ^ 53 < 2 ^ 1024"
    by (rule power_strict_increasing) simp_all
  with a have "\<not> 2 ^ 1024 \<le> s" and "\<not> s \<le> - (2 ^ 1024)"
    by linarith+
  with a show ?thesis
    by (simp only: nearest_def round64_exact Let_def if_False)
qed

subsection \<open>The cart\<close>

lemma find_id_None: "find (\<lambda>item. itemId item = i) xs = None \<longleftrightarrow> i \<notin> itemId ` set xs"
  by (auto simp: find_None_iff)

lemma find_id_Some_id: "find (\<lambda>item. itemId item = i) xs = Some e \<Longrightarrow> itemId e = i \<and> e \<in> set xs"
  by (auto simp: find_Some_iff)

lemma find_id_split:
  "itemId e = i \<Longrightarrow> i \<notin> itemId ` set pre \<Longrightarrow>
   find (\<lambda>item. itemId item = i) (pre @ e # post) = Some e"
  by (induction pre) auto

lemma filter_absent: "i \<notin> itemId ` set xs \<Longrightarrow> filter (\<lambda>item. itemId item \<noteq> i) xs = xs"
  by (induction xs) auto

lemma map_absent:
  "i \<notin> itemId ` set xs \<Longrightarrow> map (\<lambda>item. if itemId item = i then f item else item) xs = xs"
  by (induction xs) auto

lemma ids_map_quantity:
  "map itemId (map (\<lambda>item. if itemId item = i then item\<lparr>quantity := g item\<rparr> else item) xs)
   = map itemId xs"
  by (induction xs) auto

lemma unique_split:
  "unique_ids (pre @ e # post) \<Longrightarrow> itemId e \<notin> itemId ` set pre \<and> itemId e \<notin> itemId ` set post"
  by (auto simp: unique_ids_def)

lemma cartQuantity_foldl:
  "\<forall>k \<le> length xs. \<bar>a + sum_list (map quantity (take k xs))\<bar> \<le> 2 ^ 53 \<Longrightarrow>
   foldl (\<lambda>q item. plus_number (Finite (quantity item)) q) (Finite a) xs
   = Finite (a + sum_list (map quantity xs))"
proof (induction xs arbitrary: a)
  case Nil
  then show ?case by simp
next
  case (Cons x xs)
  have "Suc 0 \<le> length (x # xs)"
    by simp
  with Cons.prems have "\<bar>a + sum_list (map quantity (take (Suc 0) (x # xs)))\<bar> \<le> 2 ^ 53"
    by blast
  then have "\<bar>quantity x + a\<bar> \<le> 2 ^ 53"
    by (simp add: add.commute)
  then have first: "plus_number (Finite (quantity x)) (Finite a) = Finite (quantity x + a)"
    by (simp add: nearest_exact)
  have "\<forall>k \<le> length xs. \<bar>(quantity x + a) + sum_list (map quantity (take k xs))\<bar> \<le> 2 ^ 53"
  proof (intro allI impI)
    fix k assume "k \<le> length xs"
    then have "Suc k \<le> length (x # xs)" by simp
    with Cons.prems have "\<bar>a + sum_list (map quantity (take (Suc k) (x # xs)))\<bar> \<le> 2 ^ 53"
      by blast
    then show "\<bar>(quantity x + a) + sum_list (map quantity (take k xs))\<bar> \<le> 2 ^ 53"
      by (simp add: algebra_simps)
  qed
  then have "foldl (\<lambda>q item. plus_number (Finite (quantity item)) q) (Finite (quantity x + a)) xs
             = Finite ((quantity x + a) + sum_list (map quantity xs))"
    by (rule Cons.IH)
  with first show ?case
    by (simp add: algebra_simps)
qed

lemma prefix_sum_bounds:
  assumes "\<forall>item \<in> set xs. 0 \<le> quantity item"
  shows "0 \<le> sum_list (map quantity (take k xs))
       \<and> sum_list (map quantity (take k xs)) \<le> sum_list (map quantity xs)"
proof -
  have "sum_list (map quantity xs)
        = sum_list (map quantity (take k xs)) + sum_list (map quantity (drop k xs))"
    by (metis append_take_drop_id map_append sum_list_append)
  moreover from assms have "0 \<le> sum_list (map quantity (take k xs))"
    by (intro sum_list_nonneg) (auto dest: in_set_takeD)
  moreover from assms have "0 \<le> sum_list (map quantity (drop k xs))"
    by (intro sum_list_nonneg) (auto dest: in_set_dropD)
  ultimately show ?thesis by linarith
qed

lemma cartQuantity_nonneg:
  assumes "\<forall>item \<in> set xs. 0 \<le> quantity item"
    and "sum_list (map quantity xs) \<le> 2 ^ 53"
  shows "cartQuantity xs = Finite (sum_list (map quantity xs))"
proof -
  have "\<forall>k \<le> length xs. \<bar>0 + sum_list (map quantity (take k xs))\<bar> \<le> 2 ^ 53"
  proof (intro allI impI)
    fix k
    from prefix_sum_bounds [OF assms(1), of k] assms(2)
    show "\<bar>0 + sum_list (map quantity (take k xs))\<bar> \<le> 2 ^ 53"
      by linarith
  qed
  then show ?thesis
    unfolding cartQuantity_def using cartQuantity_foldl [of xs 0] by simp
qed

lemma ids_increase:
  "map itemId (increaseCartQuantity i xs)
   = (if i \<in> itemId ` set xs then map itemId xs else map itemId xs @ [i])"
  unfolding increaseCartQuantity_def
  by (simp add: ids_map_quantity find_id_None del: map_map)

lemma ids_remove:
  "map itemId (removeFromCart i xs) = filter (\<lambda>j. j \<noteq> i) (map itemId xs)"
  unfolding removeFromCart_def by (induction xs) auto

lemma ids_decrease:
  "map itemId (decreaseCartQuantity i xs)
   = (if opt_quantity (find (\<lambda>item. itemId item = i) xs) = Some 1
      then filter (\<lambda>j. j \<noteq> i) (map itemId xs) else map itemId xs)"
  unfolding decreaseCartQuantity_def
  using ids_remove [of i xs]
  by (simp add: ids_map_quantity removeFromCart_def del: map_map)

lemma unique_increase: "unique_ids xs \<Longrightarrow> unique_ids (increaseCartQuantity i xs)"
  unfolding unique_ids_def by (simp add: ids_increase)

lemma unique_decrease: "unique_ids xs \<Longrightarrow> unique_ids (decreaseCartQuantity i xs)"
  unfolding unique_ids_def by (simp add: ids_decrease)

lemma unique_remove: "unique_ids xs \<Longrightarrow> unique_ids (removeFromCart i xs)"
  unfolding unique_ids_def by (simp add: ids_remove)

lemma unique_step: "unique_ids (cartItems s) \<Longrightarrow> unique_ids (cartItems (step s a))"
  by (cases a)
     (simp_all add: openCart_def closeCart_def setCartItems_def
        unique_increase unique_decrease unique_remove)

lemma unique_foldl: "unique_ids (cartItems s) \<Longrightarrow> unique_ids (cartItems (foldl step s acts))"
  by (induction acts arbitrary: s) (simp_all add: unique_step)

lemma positive_increase: "positive_quantities xs \<Longrightarrow> positive_quantities (increaseCartQuantity i xs)"
proof -
  assume p: "positive_quantities xs"
  have "1 \<le> js_add (quantity item) 1" if "item \<in> set xs" for item
  proof -
    from p that have "1 \<le> quantity item"
      by (simp add: positive_quantities_def list_all_iff)
    then have "1 \<le> quantity item + 1"
      by simp
    then show ?thesis
      unfolding js_add_def by (rule round64_pos)
  qed
  with p show ?thesis
    by (auto simp: positive_quantities_def increaseCartQuantity_def list_all_iff)
qed

lemma unique_find:
  "unique_ids xs \<Longrightarrow> e \<in> set xs \<Longrightarrow> find (\<lambda>item. itemId item = itemId e) xs = Some e"
proof (induction xs)
  case Nil
  then show ?case by simp
next
  case (Cons x xs)
  then show ?case by (auto simp: unique_ids_def)
qed

lemma positive_decrease:
  assumes "unique_ids xs" and "positive_quantities xs"
  shows "positive_quantities (decreaseCartQuantity i xs)"
proof (cases "opt_quantity (find (\<lambda>item. itemId item = i) xs) = Some 1")
  case True
  with assms(2) show ?thesis
    by (auto simp: positive_quantities_def decreaseCartQuantity_def list_all_iff)
next
  case False
  have "1 \<le> js_sub (quantity item) 1" if "item \<in> set xs" and "itemId item = i" for item
  proof -
    from assms(1) that have "find (\<lambda>item. itemId item = i) xs = Some item"
      using unique_find by blast
    with False have "quantity item \<noteq> 1" by (simp add: opt_quantity_def)
    moreover from assms(2) that(1) have "1 \<le> quantity item"
      by (simp add: positive_quantities_def list_all_iff)
    ultimately have "1 \<le> quantity item - 1" by simp
    then show ?thesis
      unfolding js_sub_def by (rule round64_pos)
  qed
  with assms(2) False show ?thesis
    by (auto simp: positive_quantities_def decreaseCartQuantity_def list_all_iff)
qed

lemma positive_remove: "positive_quantities xs \<Longrightarrow> positive_quantities (removeFromCart i xs)"
  unfolding positive_quantities_def removeFromCart_def
  by (auto simp: list_all_iff)

lemma inv_step:
  "unique_ids (cartItems s) \<and> positive_quantities (cartItems s) \<Longrightarrow>
   unique_ids (cartItems (step s a)) \<and> positive_quantities (cartItems (step s a))"
  by (cases a)
     (simp_all add: openCart_def closeCart_def setCartItems_def
        unique_increase unique_decrease unique_remove
        positive_increase positive_decrease positive_remove)

lemma inv_foldl:
  "unique_ids (cartItems s) \<and> positive_quantities (cartItems s) \<Longrightarrow>
   unique_ids (cartItems (foldl step s acts)) \<and> positive_quantities (cartItems (foldl step s acts))"
proof (induction acts arbitrary: s)
  case Nil
  then show ?case by simp
next
  case (Cons a acts)
  from Cons.prems have "unique_ids (cartItems (step s a)) \<and> positive_quantities (cartItems (step s a))"
    by (rule inv_step)
  then show ?case using Cons.IH by simp
qed

lemma inv_initial: "unique_ids (cartItems initial) \<and> positive_quantities (cartItems initial)"
  by (simp add: initial_def unique_ids_def positive_quantities_def)

lemma filter_eq_absent:
  "i \<notin> itemId ` set xs \<Longrightarrow> filter (\<lambda>item. itemId item = i) xs = []"
  by (induction xs) auto

lemma map_split:
  assumes "unique_ids (pre @ e # post)" and "itemId e = i"
  shows "map (\<lambda>item. if itemId item = i then f item else item) (pre @ e # post)
         = pre @ f e # post"
proof -
  from assms have "i \<notin> itemId ` set pre" and "i \<notin> itemId ` set post"
    using unique_split by blast+
  with assms(2) show ?thesis by (simp add: map_absent)
qed

lemma filter_split:
  assumes "unique_ids (pre @ e # post)" and "itemId e = i"
  shows "filter (\<lambda>item. itemId item \<noteq> i) (pre @ e # post) = pre @ post"
proof -
  from assms have "i \<notin> itemId ` set pre" and "i \<notin> itemId ` set post"
    using unique_split by blast+
  with assms(2) show ?thesis by (simp add: filter_absent)
qed

lemma find_split:
  assumes "unique_ids (pre @ e # post)" and "itemId e = i"
  shows "find (\<lambda>item. itemId item = i) (pre @ e # post) = Some e"
proof -
  from assms have "i \<notin> itemId ` set pre"
    using unique_split by blast
  with assms(2) show ?thesis by (rule find_id_split)
qed

lemma increase_split:
  assumes "unique_ids (pre @ e # post)" and "itemId e = i"
  shows "increaseCartQuantity i (pre @ e # post)
         = pre @ e\<lparr>quantity := js_add (quantity e) 1\<rparr> # post"
  using find_split [OF assms] map_split [OF assms]
  by (simp add: increaseCartQuantity_def)

lemma increase_absent:
  "i \<notin> itemId ` set xs \<Longrightarrow> increaseCartQuantity i xs = xs @ [\<lparr>itemId = i, quantity = 1\<rparr>]"
  by (simp add: increaseCartQuantity_def find_id_None)

lemma decrease_absent: "i \<notin> itemId ` set xs \<Longrightarrow> decreaseCartQuantity i xs = xs"
  using find_id_None [of i xs]
  by (simp add: decreaseCartQuantity_def opt_quantity_def map_absent)

lemma decrease_split_one:
  assumes "unique_ids (pre @ e # post)" and "itemId e = i" and "quantity e = 1"
  shows "decreaseCartQuantity i (pre @ e # post) = pre @ post"
  using find_split [OF assms(1,2)] filter_split [OF assms(1,2)] assms(3)
  by (simp add: decreaseCartQuantity_def opt_quantity_def)

lemma decrease_split_more:
  assumes "unique_ids (pre @ e # post)" and "itemId e = i" and "quantity e \<noteq> 1"
  shows "decreaseCartQuantity i (pre @ e # post)
         = pre @ e\<lparr>quantity := js_sub (quantity e) 1\<rparr> # post"
  using find_split [OF assms(1,2)] map_split [OF assms(1,2)] assms(3)
  by (simp add: decreaseCartQuantity_def opt_quantity_def)

lemma find_map_quantity:
  "find (\<lambda>item. itemId item = i)
     (map (\<lambda>item. if itemId item = i then item\<lparr>quantity := h item\<rparr> else item) xs)
   = (case find (\<lambda>item. itemId item = i) xs of
        None \<Rightarrow> None | Some e \<Rightarrow> Some (e\<lparr>quantity := h e\<rparr>))"
  by (induction xs) auto

lemma find_positive:
  "positive_quantities xs \<Longrightarrow> find (\<lambda>item. itemId item = i) xs = Some e \<Longrightarrow> 1 \<le> quantity e"
  by (auto simp: positive_quantities_def list_all_iff dest: find_id_Some_id)

lemma frame_map:
  "filter (\<lambda>item. itemId item \<noteq> i)
     (map (\<lambda>item. if itemId item = i then item\<lparr>quantity := h item\<rparr> else item) xs)
   = filter (\<lambda>item. itemId item \<noteq> i) xs"
  by (induction xs) auto

lemma frame_increase:
  "filter (\<lambda>item. itemId item \<noteq> i) (increaseCartQuantity i xs)
   = filter (\<lambda>item. itemId item \<noteq> i) xs"
  by (simp add: increaseCartQuantity_def frame_map)

lemma frame_decrease:
  "filter (\<lambda>item. itemId item \<noteq> i) (decreaseCartQuantity i xs)
   = filter (\<lambda>item. itemId item \<noteq> i) xs"
  by (simp add: decreaseCartQuantity_def frame_map)

lemma frame_remove:
  "filter (\<lambda>item. itemId item \<noteq> i) (removeFromCart i xs)
   = filter (\<lambda>item. itemId item \<noteq> i) xs"
  by (simp add: removeFromCart_def)

lemma remove_absent: "i \<notin> itemId ` set xs \<Longrightarrow> removeFromCart i xs = xs"
  by (simp add: removeFromCart_def filter_absent)

lemma remove_greatest:
  assumes "subseq ys xs" and "i \<notin> itemId ` set ys"
  shows "subseq ys (removeFromCart i xs)"
proof -
  from assms(1) have "subseq (filter (\<lambda>item. itemId item \<noteq> i) ys) (filter (\<lambda>item. itemId item \<noteq> i) xs)"
    by (rule subseq_filter)
  with assms(2) show ?thesis
    by (simp add: removeFromCart_def filter_absent)
qed

lemma getItemQuantity_find:
  "getItemQuantity xs i
   = (case find (\<lambda>item. itemId item = i) xs of None \<Rightarrow> 0 | Some e \<Rightarrow> quantity e)"
  by (simp add: getItemQuantity_def js_or_def opt_quantity_def split: option.splits)

section \<open>The invariants\<close>

text \<open>
  C1. Uniqueness. From an entry list in which no two entries have the same identifier,
  each of \<open>increaseCartQuantity\<close>, \<open>decreaseCartQuantity\<close> and \<open>removeFromCart\<close>
  gives such a list again; \<open>openCart\<close> and \<open>closeCart\<close> leave the entries as they are;
  the empty list has the property. Hence the entries reached from the initial, empty cart
  by any sequence of operations never hold two records with the same identifier.
\<close>

theorem uniqueness_invariant:
  "(unique_ids xs \<longrightarrow>
      unique_ids (increaseCartQuantity i xs)
      \<and> unique_ids (decreaseCartQuantity i xs)
      \<and> unique_ids (removeFromCart i xs))
   \<and> cartItems (openCart s) = cartItems s
   \<and> cartItems (closeCart s) = cartItems s
   \<and> unique_ids []
   \<and> unique_ids (cartItems (run acts))"
proof -
  have "unique_ids (cartItems (run acts))"
    unfolding run_def using inv_initial by (intro unique_foldl) simp
  moreover have "unique_ids []"
    by (simp add: unique_ids_def)
  ultimately show ?thesis
    by (simp add: unique_increase unique_decrease unique_remove
        openCart_def closeCart_def)
qed

theorem uniqueness_invariant_witness:
  "unique_ids [\<lparr>itemId = 5, quantity = 2\<rparr>, \<lparr>itemId = 7, quantity = 1\<rparr>]
   \<and> unique_ids (increaseCartQuantity 7 [\<lparr>itemId = 5, quantity = 2\<rparr>, \<lparr>itemId = 7, quantity = 1\<rparr>])
   \<and> unique_ids (decreaseCartQuantity 7 [\<lparr>itemId = 5, quantity = 2\<rparr>, \<lparr>itemId = 7, quantity = 1\<rparr>])
   \<and> unique_ids (removeFromCart 7 [\<lparr>itemId = 5, quantity = 2\<rparr>, \<lparr>itemId = 7, quantity = 1\<rparr>])
   \<and> cartItems (run [IncreaseCartQuantity 5, OpenCart, IncreaseCartQuantity 7, IncreaseCartQuantity 5])
       = [\<lparr>itemId = 5, quantity = 2\<rparr>, \<lparr>itemId = 7, quantity = 1\<rparr>]"
proof -
  have h: "unique_ids [\<lparr>itemId = 5, quantity = 2\<rparr>, \<lparr>itemId = 7, quantity = 1\<rparr>]"
    by (simp add: unique_ids_def)
  have r: "cartItems (run [IncreaseCartQuantity 5, OpenCart, IncreaseCartQuantity 7, IncreaseCartQuantity 5])
       = [\<lparr>itemId = 5, quantity = 2\<rparr>, \<lparr>itemId = 7, quantity = 1\<rparr>]"
    by (simp add: run_def initial_def setCartItems_def openCart_def increaseCartQuantity_def
        js_add_exact)
  from h r show ?thesis
    using uniqueness_invariant [of "[\<lparr>itemId = 5, quantity = 2\<rparr>, \<lparr>itemId = 7, quantity = 1\<rparr>]" 7 initial "[]"]
    by simp
qed

text \<open>
  C2. Quantities stay positive. From an entry list with unique identifiers in which every
  quantity is at least 1, each of the three list operations gives a list in which every
  quantity is at least 1; and every entry of the cart reached from the initial, empty cart
  by any sequence of operations has a quantity of at least 1, so none has 0 or a negative
  quantity.
\<close>

theorem quantity_invariant:
  "(unique_ids xs \<and> positive_quantities xs \<longrightarrow>
      positive_quantities (increaseCartQuantity i xs)
      \<and> positive_quantities (decreaseCartQuantity i xs)
      \<and> positive_quantities (removeFromCart i xs))
   \<and> (\<forall>item \<in> set (cartItems (run acts)). 1 \<le> quantity item)"
proof -
  have "positive_quantities (cartItems (run acts))"
    unfolding run_def using inv_initial inv_foldl by blast
  then have "\<forall>item \<in> set (cartItems (run acts)). 1 \<le> quantity item"
    by (simp add: positive_quantities_def list_all_iff)
  then show ?thesis
    by (simp add: positive_increase positive_decrease positive_remove)
qed

theorem quantity_invariant_witness:
  "unique_ids [\<lparr>itemId = 5, quantity = 2\<rparr>, \<lparr>itemId = 7, quantity = 1\<rparr>]
   \<and> positive_quantities [\<lparr>itemId = 5, quantity = 2\<rparr>, \<lparr>itemId = 7, quantity = 1\<rparr>]
   \<and> positive_quantities (decreaseCartQuantity 7 [\<lparr>itemId = 5, quantity = 2\<rparr>, \<lparr>itemId = 7, quantity = 1\<rparr>])
   \<and> positive_quantities (decreaseCartQuantity 5 [\<lparr>itemId = 5, quantity = 2\<rparr>, \<lparr>itemId = 7, quantity = 1\<rparr>])
   \<and> \<lparr>itemId = 5, quantity = 1\<rparr>
        \<in> set (cartItems (run [IncreaseCartQuantity 5, IncreaseCartQuantity 5, DecreaseCartQuantity 5]))
   \<and> 1 \<le> quantity \<lparr>itemId = 5, quantity = 1\<rparr>"
proof -
  let ?xs = "[\<lparr>itemId = 5, quantity = 2\<rparr>, \<lparr>itemId = 7, quantity = 1\<rparr>]"
  have h: "unique_ids ?xs \<and> positive_quantities ?xs"
    by (simp add: unique_ids_def positive_quantities_def)
  have r: "\<lparr>itemId = 5, quantity = 1\<rparr>
        \<in> set (cartItems (run [IncreaseCartQuantity 5, IncreaseCartQuantity 5, DecreaseCartQuantity 5]))"
    by (simp add: run_def initial_def setCartItems_def increaseCartQuantity_def
        decreaseCartQuantity_def opt_quantity_def js_add_exact js_sub_exact)
  from h r show ?thesis
    using quantity_invariant [of ?xs 7 "[IncreaseCartQuantity 5, IncreaseCartQuantity 5, DecreaseCartQuantity 5]"]
      quantity_invariant [of ?xs 5 "[]"]
    by simp
qed

section \<open>Increasing and decreasing\<close>

text \<open>
  C3, within the exact range. Postcondition of \<open>increaseCartQuantity\<close>. On an entry list with unique
  identifiers, after the call exactly one entry has the identifier. When none had it, the
  result is the old list with the new entry of quantity 1 appended. When the entry \<open>e\<close> had
  it and its quantity is at least \<open>- 2 ^ 53\<close> and below \<open>2 ^ 53\<close>, the result is the old list
  with \<open>e\<close> replaced, in its place, by \<open>e\<close> with its quantity plus 1.
\<close>

theorem increase_postcondition:
  assumes "unique_ids xs"
  shows "length (filter (\<lambda>item. itemId item = i) (increaseCartQuantity i xs)) = 1
    \<and> (i \<notin> itemId ` set xs \<longrightarrow>
          increaseCartQuantity i xs = xs @ [\<lparr>itemId = i, quantity = 1\<rparr>]
          \<and> filter (\<lambda>item. itemId item = i) (increaseCartQuantity i xs)
              = [\<lparr>itemId = i, quantity = 1\<rparr>])
    \<and> (\<forall>pre e post. xs = pre @ e # post \<and> itemId e = i
            \<and> - (2 ^ 53) \<le> quantity e \<and> quantity e < 2 ^ 53 \<longrightarrow>
          increaseCartQuantity i xs = pre @ e\<lparr>quantity := quantity e + 1\<rparr> # post
          \<and> filter (\<lambda>item. itemId item = i) (increaseCartQuantity i xs)
              = [\<lparr>itemId = i, quantity = quantity e + 1\<rparr>])"
proof -
  have absent: "increaseCartQuantity i xs = xs @ [\<lparr>itemId = i, quantity = 1\<rparr>]
      \<and> filter (\<lambda>item. itemId item = i) (increaseCartQuantity i xs) = [\<lparr>itemId = i, quantity = 1\<rparr>]"
    if "i \<notin> itemId ` set xs"
    using that by (simp add: increase_absent filter_eq_absent)
  have rounded: "increaseCartQuantity i xs = pre @ e\<lparr>quantity := js_add (quantity e) 1\<rparr> # post
      \<and> filter (\<lambda>item. itemId item = i) (increaseCartQuantity i xs)
          = [\<lparr>itemId = i, quantity = js_add (quantity e) 1\<rparr>]"
    if "xs = pre @ e # post" and "itemId e = i" for pre e post
  proof -
    from assms that have u: "unique_ids (pre @ e # post)" by simp
    then have "i \<notin> itemId ` set pre" and "i \<notin> itemId ` set post"
      using unique_split that(2) by blast+
    then show ?thesis
      using increase_split [OF u that(2)] that by (simp add: filter_eq_absent)
  qed
  have present: "increaseCartQuantity i xs = pre @ e\<lparr>quantity := quantity e + 1\<rparr> # post
      \<and> filter (\<lambda>item. itemId item = i) (increaseCartQuantity i xs)
          = [\<lparr>itemId = i, quantity = quantity e + 1\<rparr>]"
    if "xs = pre @ e # post \<and> itemId e = i \<and> - (2 ^ 53) \<le> quantity e \<and> quantity e < 2 ^ 53"
    for pre e post
  proof -
    from that have x: "xs = pre @ e # post" and i: "itemId e = i"
      by simp_all
    from that have "\<bar>quantity e + 1\<bar> \<le> 2 ^ 53" by linarith
    then have eq: "js_add (quantity e) 1 = quantity e + 1" by (rule js_add_exact)
    from rounded [OF x i] show ?thesis
      unfolding eq .
  qed
  have len: "length (filter (\<lambda>item. itemId item = i) (increaseCartQuantity i xs)) = 1"
  proof (cases "i \<in> itemId ` set xs")
    case False
    from absent [OF False]
    have "filter (\<lambda>item. itemId item = i) (increaseCartQuantity i xs) = [\<lparr>itemId = i, quantity = 1\<rparr>]"
      by (rule conjunct2)
    then show ?thesis by simp
  next
    case True
    then obtain e where "e \<in> set xs" and "itemId e = i" by auto
    then obtain pre post where "xs = pre @ e # post"
      by (auto dest: split_list)
    from rounded [OF this \<open>itemId e = i\<close>]
    have "filter (\<lambda>item. itemId item = i) (increaseCartQuantity i xs)
          = [\<lparr>itemId = i, quantity = js_add (quantity e) 1\<rparr>]"
      by (rule conjunct2)
    then show ?thesis by simp
  qed
  show ?thesis
    by (intro conjI allI impI) (use len absent present in blast)+
qed

theorem increase_postcondition_witness:
  "unique_ids [\<lparr>itemId = 5, quantity = 2\<rparr>, \<lparr>itemId = 7, quantity = 1\<rparr>]
   \<and> increaseCartQuantity 7 [\<lparr>itemId = 5, quantity = 2\<rparr>, \<lparr>itemId = 7, quantity = 1\<rparr>]
       = [\<lparr>itemId = 5, quantity = 2\<rparr>, \<lparr>itemId = 7, quantity = 2\<rparr>]
   \<and> increaseCartQuantity 9 [\<lparr>itemId = 5, quantity = 2\<rparr>, \<lparr>itemId = 7, quantity = 1\<rparr>]
       = [\<lparr>itemId = 5, quantity = 2\<rparr>, \<lparr>itemId = 7, quantity = 1\<rparr>, \<lparr>itemId = 9, quantity = 1\<rparr>]
   \<and> increaseCartQuantity 5 [] = [\<lparr>itemId = 5, quantity = 1\<rparr>]"
proof -
  let ?xs = "[\<lparr>itemId = 5, quantity = 2\<rparr>, \<lparr>itemId = 7, quantity = 1\<rparr>]"
  have u: "unique_ids ?xs" and u0: "unique_ids []"
    by (simp_all add: unique_ids_def)
  have a: "9 \<notin> itemId ` set ?xs" and a0: "5 \<notin> itemId ` set ([] :: CartItem list)"
    by simp_all
  have s: "?xs = [\<lparr>itemId = 5, quantity = 2\<rparr>] @ \<lparr>itemId = 7, quantity = 1\<rparr> # []
            \<and> itemId \<lparr>itemId = 7, quantity = 1\<rparr> = 7
            \<and> - (2 ^ 53) \<le> quantity \<lparr>itemId = 7, quantity = 1\<rparr>
            \<and> quantity \<lparr>itemId = 7, quantity = 1\<rparr> < 2 ^ 53"
    by simp
  from increase_postcondition [OF u, of 7] s
  have "increaseCartQuantity 7 ?xs
        = [\<lparr>itemId = 5, quantity = 2\<rparr>]
          @ \<lparr>itemId = 7, quantity = 1\<rparr>\<lparr>quantity := quantity \<lparr>itemId = 7, quantity = 1\<rparr> + 1\<rparr> # []"
    by blast
  moreover from increase_postcondition [OF u, of 9] a
  have "increaseCartQuantity 9 ?xs = ?xs @ [\<lparr>itemId = 9, quantity = 1\<rparr>]"
    by blast
  moreover from increase_postcondition [OF u0, of 5] a0
  have "increaseCartQuantity 5 [] = [] @ [\<lparr>itemId = 5, quantity = 1\<rparr>]"
    by blast
  ultimately show ?thesis using u by simp
qed

text \<open>
  C3 without the range: the number \<open>2 ^ 53 + 1\<close> does not exist, the sum is rounded to
  \<open>2 ^ 53\<close>, and increasing the quantity \<open>2 ^ 53 = 9007199254740992\<close> leaves the entry as
  it is instead of adding 1.
\<close>

theorem increase_postcondition_counterexample:
  "unique_ids [\<lparr>itemId = 1, quantity = 9007199254740992\<rparr>]
   \<and> is_number 9007199254740992
   \<and> increaseCartQuantity 1 [\<lparr>itemId = 1, quantity = 9007199254740992\<rparr>]
       = [\<lparr>itemId = 1, quantity = 9007199254740992\<rparr>]
   \<and> increaseCartQuantity 1 [\<lparr>itemId = 1, quantity = 9007199254740992\<rparr>]
       \<noteq> [\<lparr>itemId = 1, quantity = 9007199254740992 + 1\<rparr>]"
proof -
  have r: "round64 9007199254740993 = 9007199254740992"
    by code_simp
  have n: "is_number 9007199254740992"
    unfolding is_number_def by (simp add: round64_exact)
  from r n show ?thesis
    by (simp add: unique_ids_def increaseCartQuantity_def js_add_def)
qed

text \<open>
  C4, within the exact range. Behaviour of \<open>decreaseCartQuantity\<close>. On an entry list with unique
  identifiers: when the entry \<open>e\<close> with the identifier has quantity 1, the result is the
  list without \<open>e\<close>, and no entry with the identifier is left; when its quantity is greater
  than 1 and at most \<open>2 ^ 53\<close>, the result is the list with \<open>e\<close> replaced, in its place, by
  \<open>e\<close> with its quantity minus 1; when no entry has the identifier, the result is the list
  itself, so nothing is created. (The second invariant, quantities of at least 1, is not
  needed for any of the three.)
\<close>

theorem decrease_behaviour:
  assumes "unique_ids xs"
  shows "(\<forall>pre e post. xs = pre @ e # post \<and> itemId e = i \<longrightarrow>
            (quantity e = 1 \<longrightarrow>
               decreaseCartQuantity i xs = pre @ post
               \<and> i \<notin> itemId ` set (decreaseCartQuantity i xs))
          \<and> (1 < quantity e \<and> quantity e \<le> 2 ^ 53 \<longrightarrow>
               decreaseCartQuantity i xs = pre @ e\<lparr>quantity := quantity e - 1\<rparr> # post))
    \<and> (i \<notin> itemId ` set xs \<longrightarrow> decreaseCartQuantity i xs = xs)"
proof -
  have one: "decreaseCartQuantity i xs = pre @ post \<and> i \<notin> itemId ` set (decreaseCartQuantity i xs)"
    if "xs = pre @ e # post" and "itemId e = i" and "quantity e = 1" for pre e post
  proof -
    from assms that have u: "unique_ids (pre @ e # post)" by simp
    then have "i \<notin> itemId ` set pre" and "i \<notin> itemId ` set post"
      using unique_split that(2) by blast+
    then show ?thesis
      using decrease_split_one [OF u that(2,3)] that(1) by auto
  qed
  have more: "decreaseCartQuantity i xs = pre @ e\<lparr>quantity := quantity e - 1\<rparr> # post"
    if "xs = pre @ e # post" and "itemId e = i" and "1 < quantity e \<and> quantity e \<le> 2 ^ 53"
    for pre e post
  proof -
    from assms that have u: "unique_ids (pre @ e # post)" by simp
    from that(3) have "quantity e \<noteq> 1" by simp
    from decrease_split_more [OF u that(2) this] that(1)
    have "decreaseCartQuantity i xs = pre @ e\<lparr>quantity := js_sub (quantity e) 1\<rparr> # post"
      by simp
    moreover from that(3) have "\<bar>quantity e - 1\<bar> \<le> 2 ^ 53" by linarith
    then have "js_sub (quantity e) 1 = quantity e - 1" by (rule js_sub_exact)
    ultimately show ?thesis by simp
  qed
  show ?thesis
    by (intro conjI allI impI) (use one more decrease_absent [of i xs] in blast)+
qed

theorem decrease_behaviour_witness:
  "unique_ids [\<lparr>itemId = 5, quantity = 3\<rparr>, \<lparr>itemId = 7, quantity = 1\<rparr>]
   \<and> decreaseCartQuantity 7 [\<lparr>itemId = 5, quantity = 3\<rparr>, \<lparr>itemId = 7, quantity = 1\<rparr>]
       = [\<lparr>itemId = 5, quantity = 3\<rparr>]
   \<and> decreaseCartQuantity 5 [\<lparr>itemId = 5, quantity = 3\<rparr>, \<lparr>itemId = 7, quantity = 1\<rparr>]
       = [\<lparr>itemId = 5, quantity = 2\<rparr>, \<lparr>itemId = 7, quantity = 1\<rparr>]
   \<and> decreaseCartQuantity 9 [\<lparr>itemId = 5, quantity = 3\<rparr>, \<lparr>itemId = 7, quantity = 1\<rparr>]
       = [\<lparr>itemId = 5, quantity = 3\<rparr>, \<lparr>itemId = 7, quantity = 1\<rparr>]"
proof -
  let ?xs = "[\<lparr>itemId = 5, quantity = 3\<rparr>, \<lparr>itemId = 7, quantity = 1\<rparr>]"
  have u: "unique_ids ?xs"
    by (simp add: unique_ids_def)
  have s7: "?xs = [\<lparr>itemId = 5, quantity = 3\<rparr>] @ \<lparr>itemId = 7, quantity = 1\<rparr> # []
            \<and> itemId \<lparr>itemId = 7, quantity = 1\<rparr> = 7"
    and q7: "quantity \<lparr>itemId = 7, quantity = 1\<rparr> = 1"
    and s5: "?xs = [] @ \<lparr>itemId = 5, quantity = 3\<rparr> # [\<lparr>itemId = 7, quantity = 1\<rparr>]
            \<and> itemId \<lparr>itemId = 5, quantity = 3\<rparr> = 5"
    and q5: "1 < quantity \<lparr>itemId = 5, quantity = 3\<rparr>
            \<and> quantity \<lparr>itemId = 5, quantity = 3\<rparr> \<le> 2 ^ 53"
    and a9: "9 \<notin> itemId ` set ?xs"
    by simp_all
  from decrease_behaviour [OF u, of 7] s7 q7
  have "decreaseCartQuantity 7 ?xs = [\<lparr>itemId = 5, quantity = 3\<rparr>] @ []"
    by blast
  moreover from decrease_behaviour [OF u, of 5] s5 q5
  have "decreaseCartQuantity 5 ?xs
        = [] @ \<lparr>itemId = 5, quantity = 3\<rparr>\<lparr>quantity := quantity \<lparr>itemId = 5, quantity = 3\<rparr> - 1\<rparr>
            # [\<lparr>itemId = 7, quantity = 1\<rparr>]"
    by blast
  moreover from decrease_behaviour [OF u, of 9] a9
  have "decreaseCartQuantity 9 ?xs = ?xs"
    by blast
  ultimately show ?thesis using u by simp
qed

text \<open>
  C4 without the range: decreasing the quantity \<open>2 ^ 53 + 2 = 9007199254740994\<close> gives
  \<open>2 ^ 53\<close>, since the difference \<open>2 ^ 53 + 1\<close> is rounded, and not the quantity minus 1.
\<close>

theorem decrease_behaviour_counterexample:
  "unique_ids [\<lparr>itemId = 1, quantity = 9007199254740994\<rparr>]
   \<and> positive_quantities [\<lparr>itemId = 1, quantity = 9007199254740994\<rparr>]
   \<and> is_number 9007199254740994
   \<and> decreaseCartQuantity 1 [\<lparr>itemId = 1, quantity = 9007199254740994\<rparr>]
       = [\<lparr>itemId = 1, quantity = 9007199254740992\<rparr>]
   \<and> decreaseCartQuantity 1 [\<lparr>itemId = 1, quantity = 9007199254740994\<rparr>]
       \<noteq> [\<lparr>itemId = 1, quantity = 9007199254740994 - 1\<rparr>]"
proof -
  have r: "round64 9007199254740993 = 9007199254740992"
    by code_simp
  have r': "round64 9007199254740994 = 9007199254740994"
    by code_simp
  from r' have n: "is_number 9007199254740994"
    unfolding is_number_def by simp
  from r n show ?thesis
    by (simp add: unique_ids_def positive_quantities_def decreaseCartQuantity_def
        opt_quantity_def js_sub_def)
qed

text \<open>
  C5, within the exact range. Decrease undoes increase. On an entry list in which every
  quantity is at least 1 and the quantity of every entry with identifier \<open>i\<close> is below
  \<open>2 ^ 53\<close>, \<open>decreaseCartQuantity i\<close> right after \<open>increaseCartQuantity i\<close> gives the
  original list back: both when an entry with the
  identifier was there and when none was (the entry appended with quantity 1 is removed
  again). Unique identifiers are not needed for this.
\<close>

theorem decrease_after_increase:
  assumes "positive_quantities xs"
    and "list_all (\<lambda>item. itemId item = i \<longrightarrow> quantity item < 2 ^ 53) xs"
  shows "decreaseCartQuantity i (increaseCartQuantity i xs) = xs"
proof (cases "find (\<lambda>item. itemId item = i) xs")
  case None
  then have absent: "i \<notin> itemId ` set xs"
    by (simp add: find_id_None)
  then have inc: "increaseCartQuantity i xs = xs @ \<lparr>itemId = i, quantity = 1\<rparr> # []"
    by (simp add: increase_absent)
  have "find (\<lambda>item. itemId item = i) (xs @ \<lparr>itemId = i, quantity = 1\<rparr> # [])
        = Some \<lparr>itemId = i, quantity = 1\<rparr>"
    using absent by (intro find_id_split) simp_all
  then have "decreaseCartQuantity i (xs @ \<lparr>itemId = i, quantity = 1\<rparr> # [])
        = filter (\<lambda>item. itemId item \<noteq> i) (xs @ \<lparr>itemId = i, quantity = 1\<rparr> # [])"
    by (simp add: decreaseCartQuantity_def opt_quantity_def)
  with absent inc show ?thesis
    by (simp add: filter_absent)
next
  case (Some e)
  let ?inc = "\<lambda>item. if itemId item = i then item\<lparr>quantity := js_add (quantity item) 1\<rparr> else item"
  let ?dec = "\<lambda>item. if itemId item = i then item\<lparr>quantity := js_sub (quantity item) 1\<rparr> else item"
  have range: "1 \<le> quantity item \<and> quantity item < 2 ^ 53"
    if "item \<in> set xs" and "itemId item = i" for item
    using assms that by (simp add: positive_quantities_def list_all_iff)
  have up: "js_add (quantity item) 1 = quantity item + 1"
    if "item \<in> set xs" and "itemId item = i" for item
    using range [OF that] by (intro js_add_exact) linarith
  have down: "js_sub (quantity item + 1) 1 = quantity item"
    if "item \<in> set xs" and "itemId item = i" for item
  proof -
    from range [OF that] have "\<bar>quantity item + 1 - 1\<bar> \<le> 2 ^ 53" by simp
    then have "js_sub (quantity item + 1) 1 = quantity item + 1 - 1" by (rule js_sub_exact)
    then show ?thesis by simp
  qed
  from Some have e: "e \<in> set xs" and ei: "itemId e = i"
    by (auto dest: find_id_Some_id)
  from Some have inc: "increaseCartQuantity i xs = map ?inc xs"
    by (simp add: increaseCartQuantity_def)
  from Some have "find (\<lambda>item. itemId item = i) (map ?inc xs)
                  = Some (e\<lparr>quantity := js_add (quantity e) 1\<rparr>)"
    by (simp add: find_map_quantity)
  with up [OF e ei] range [OF e ei]
  have "opt_quantity (find (\<lambda>item. itemId item = i) (map ?inc xs)) \<noteq> Some 1"
    by (simp add: opt_quantity_def)
  then have "decreaseCartQuantity i (map ?inc xs) = map ?dec (map ?inc xs)"
    by (simp add: decreaseCartQuantity_def)
  also have "\<dots> = map (\<lambda>item. item) xs"
    unfolding map_map by (rule map_cong [OF refl]) (simp add: up down)
  finally show ?thesis
    using inc by simp
qed

theorem decrease_after_increase_witness:
  "positive_quantities [\<lparr>itemId = 5, quantity = 2\<rparr>, \<lparr>itemId = 7, quantity = 1\<rparr>]
   \<and> quantity \<lparr>itemId = 7, quantity = 1\<rparr> < 2 ^ 53
   \<and> increaseCartQuantity 7 [\<lparr>itemId = 5, quantity = 2\<rparr>, \<lparr>itemId = 7, quantity = 1\<rparr>]
       = [\<lparr>itemId = 5, quantity = 2\<rparr>, \<lparr>itemId = 7, quantity = 2\<rparr>]
   \<and> decreaseCartQuantity 7 [\<lparr>itemId = 5, quantity = 2\<rparr>, \<lparr>itemId = 7, quantity = 2\<rparr>]
       = [\<lparr>itemId = 5, quantity = 2\<rparr>, \<lparr>itemId = 7, quantity = 1\<rparr>]
   \<and> increaseCartQuantity 9 [\<lparr>itemId = 5, quantity = 2\<rparr>, \<lparr>itemId = 7, quantity = 1\<rparr>]
       = [\<lparr>itemId = 5, quantity = 2\<rparr>, \<lparr>itemId = 7, quantity = 1\<rparr>, \<lparr>itemId = 9, quantity = 1\<rparr>]
   \<and> decreaseCartQuantity 9
         [\<lparr>itemId = 5, quantity = 2\<rparr>, \<lparr>itemId = 7, quantity = 1\<rparr>, \<lparr>itemId = 9, quantity = 1\<rparr>]
       = [\<lparr>itemId = 5, quantity = 2\<rparr>, \<lparr>itemId = 7, quantity = 1\<rparr>]"
proof -
  let ?xs = "[\<lparr>itemId = 5, quantity = 2\<rparr>, \<lparr>itemId = 7, quantity = 1\<rparr>]"
  have p: "positive_quantities ?xs"
    by (simp add: positive_quantities_def)
  have b7: "list_all (\<lambda>item. itemId item = 7 \<longrightarrow> quantity item < 2 ^ 53) ?xs"
    and b9: "list_all (\<lambda>item. itemId item = 9 \<longrightarrow> quantity item < 2 ^ 53) ?xs"
    by simp_all
  have i7: "increaseCartQuantity 7 ?xs = [\<lparr>itemId = 5, quantity = 2\<rparr>, \<lparr>itemId = 7, quantity = 2\<rparr>]"
    and i9: "increaseCartQuantity 9 ?xs = ?xs @ [\<lparr>itemId = 9, quantity = 1\<rparr>]"
    by (simp_all add: increaseCartQuantity_def js_add_exact)
  from p i7 i9 decrease_after_increase [OF p b7] decrease_after_increase [OF p b9]
  show ?thesis by simp
qed

text \<open>
  C5 without the range: at the quantity \<open>2 ^ 53\<close> the increase is rounded away and the
  decrease is exact, so increase and then decrease ends at \<open>2 ^ 53 - 1\<close>.
\<close>

theorem decrease_after_increase_counterexample:
  "unique_ids [\<lparr>itemId = 1, quantity = 9007199254740992\<rparr>]
   \<and> positive_quantities [\<lparr>itemId = 1, quantity = 9007199254740992\<rparr>]
   \<and> decreaseCartQuantity 1 (increaseCartQuantity 1 [\<lparr>itemId = 1, quantity = 9007199254740992\<rparr>])
       = [\<lparr>itemId = 1, quantity = 9007199254740991\<rparr>]
   \<and> decreaseCartQuantity 1 (increaseCartQuantity 1 [\<lparr>itemId = 1, quantity = 9007199254740992\<rparr>])
       \<noteq> [\<lparr>itemId = 1, quantity = 9007199254740992\<rparr>]"
proof -
  have r: "round64 9007199254740993 = 9007199254740992"
    by code_simp
  have r': "round64 9007199254740991 = 9007199254740991"
    by (simp add: round64_exact)
  from r r' show ?thesis
    by (simp add: unique_ids_def positive_quantities_def increaseCartQuantity_def
        decreaseCartQuantity_def opt_quantity_def js_add_def js_sub_def)
qed

section \<open>Removing\<close>

text \<open>
  C7. \<open>removeFromCart i\<close> deletes every entry with identifier \<open>i\<close> and keeps all others,
  unchanged and in their order: the result is a subsequence of the list, holds no entry
  with identifier \<open>i\<close>, holds every other entry of the list, and is the greatest such
  subsequence (every subsequence of the list without identifier \<open>i\<close> is a subsequence of
  the result). When no entry has the identifier the list comes back unchanged. On
  \<open>[{5,2},{7,1}]\<close>, removing 5 gives \<open>[{7,1}]\<close> with total 1.
\<close>
theorem remove_behaviour:
  "subseq (removeFromCart i xs) xs
   \<and> i \<notin> itemId ` set (removeFromCart i xs)
   \<and> (\<forall>item \<in> set xs. itemId item \<noteq> i \<longrightarrow> item \<in> set (removeFromCart i xs))
   \<and> (\<forall>ys. subseq ys xs \<and> i \<notin> itemId ` set ys \<longrightarrow> subseq ys (removeFromCart i xs))
   \<and> (i \<notin> itemId ` set xs \<longrightarrow> removeFromCart i xs = xs)
   \<and> removeFromCart 5 [\<lparr>itemId = 5, quantity = 2\<rparr>, \<lparr>itemId = 7, quantity = 1\<rparr>]
       = [\<lparr>itemId = 7, quantity = 1\<rparr>]
   \<and> cartQuantity (removeFromCart 5 [\<lparr>itemId = 5, quantity = 2\<rparr>, \<lparr>itemId = 7, quantity = 1\<rparr>])
       = Finite 1"
proof (intro conjI allI impI ballI)
  show "subseq (removeFromCart i xs) xs"
    by (simp add: removeFromCart_def)
  show "i \<notin> itemId ` set (removeFromCart i xs)"
    by (auto simp: removeFromCart_def)
  show "item \<in> set (removeFromCart i xs)" if "item \<in> set xs" and "itemId item \<noteq> i" for item
    using that by (simp add: removeFromCart_def)
  show "subseq ys (removeFromCart i xs)" if "subseq ys xs \<and> i \<notin> itemId ` set ys" for ys
    using that by (simp add: remove_greatest)
  show "removeFromCart i xs = xs" if "i \<notin> itemId ` set xs"
    using that by (rule remove_absent)
  show "removeFromCart 5 [\<lparr>itemId = 5, quantity = 2\<rparr>, \<lparr>itemId = 7, quantity = 1\<rparr>]
       = [\<lparr>itemId = 7, quantity = 1\<rparr>]"
    by (simp add: removeFromCart_def)
  show "cartQuantity (removeFromCart 5 [\<lparr>itemId = 5, quantity = 2\<rparr>, \<lparr>itemId = 7, quantity = 1\<rparr>])
       = Finite 1"
    by (simp add: removeFromCart_def cartQuantity_def nearest_exact)
qed

theorem remove_behaviour_witness:
  "removeFromCart 7 [\<lparr>itemId = 5, quantity = 2\<rparr>, \<lparr>itemId = 7, quantity = 1\<rparr>, \<lparr>itemId = 9, quantity = 4\<rparr>]
     = [\<lparr>itemId = 5, quantity = 2\<rparr>, \<lparr>itemId = 9, quantity = 4\<rparr>]
   \<and> \<lparr>itemId = 9, quantity = 4\<rparr>
       \<in> set (removeFromCart 7 [\<lparr>itemId = 5, quantity = 2\<rparr>, \<lparr>itemId = 7, quantity = 1\<rparr>, \<lparr>itemId = 9, quantity = 4\<rparr>])
   \<and> subseq [\<lparr>itemId = 5, quantity = 2\<rparr>, \<lparr>itemId = 9, quantity = 4\<rparr>]
        (removeFromCart 7 [\<lparr>itemId = 5, quantity = 2\<rparr>, \<lparr>itemId = 7, quantity = 1\<rparr>, \<lparr>itemId = 9, quantity = 4\<rparr>])
   \<and> removeFromCart 8 [\<lparr>itemId = 5, quantity = 2\<rparr>, \<lparr>itemId = 7, quantity = 1\<rparr>, \<lparr>itemId = 9, quantity = 4\<rparr>]
     = [\<lparr>itemId = 5, quantity = 2\<rparr>, \<lparr>itemId = 7, quantity = 1\<rparr>, \<lparr>itemId = 9, quantity = 4\<rparr>]"
proof -
  let ?xs = "[\<lparr>itemId = 5, quantity = 2\<rparr>, \<lparr>itemId = 7, quantity = 1\<rparr>, \<lparr>itemId = 9, quantity = 4\<rparr>]"
  let ?ys = "[\<lparr>itemId = 5, quantity = 2\<rparr>, \<lparr>itemId = 9, quantity = 4\<rparr>]"
  have m: "\<lparr>itemId = 9, quantity = 4\<rparr> \<in> set ?xs" and n: "itemId \<lparr>itemId = 9, quantity = 4\<rparr> \<noteq> 7"
    and s: "subseq ?ys ?xs \<and> 7 \<notin> itemId ` set ?ys"
    and a: "8 \<notin> itemId ` set ?xs"
    by simp_all
  have r: "removeFromCart 7 ?xs = ?ys"
    by (simp add: removeFromCart_def)
  from remove_behaviour [of 7 ?xs] m n
  have "\<lparr>itemId = 9, quantity = 4\<rparr> \<in> set (removeFromCart 7 ?xs)"
    by blast
  moreover from remove_behaviour [of 7 ?xs] s
  have "subseq ?ys (removeFromCart 7 ?xs)"
    by blast
  moreover from remove_behaviour [of 8 ?xs] a
  have "removeFromCart 8 ?xs = ?xs"
    by blast
  ultimately show ?thesis using r by simp
qed

section \<open>Lookup\<close>

text \<open>
  C8. On an entry list with unique identifiers, \<open>getItemQuantity\<close> returns the quantity of
  the entry that has the identifier, and 0 when no entry has it. It is a total function of
  the list and the identifier that returns a number only: it has no state to change and
  no failing case.
\<close>
theorem getItemQuantity_lookup:
  assumes "unique_ids xs"
  shows "(\<forall>e \<in> set xs. itemId e = i \<longrightarrow> getItemQuantity xs i = quantity e)
       \<and> (i \<notin> itemId ` set xs \<longrightarrow> getItemQuantity xs i = 0)"
proof (intro conjI ballI impI)
  fix e assume "e \<in> set xs" and "itemId e = i"
  with assms have "find (\<lambda>item. itemId item = i) xs = Some e"
    using unique_find by blast
  then show "getItemQuantity xs i = quantity e"
    by (simp add: getItemQuantity_find)
next
  assume "i \<notin> itemId ` set xs"
  then have "find (\<lambda>item. itemId item = i) xs = None"
    by (simp add: find_id_None)
  then show "getItemQuantity xs i = 0"
    by (simp add: getItemQuantity_find)
qed

theorem getItemQuantity_lookup_witness:
  "unique_ids [\<lparr>itemId = 5, quantity = 2\<rparr>, \<lparr>itemId = 7, quantity = 1\<rparr>]
   \<and> getItemQuantity [\<lparr>itemId = 5, quantity = 2\<rparr>, \<lparr>itemId = 7, quantity = 1\<rparr>] 5 = 2
   \<and> getItemQuantity [\<lparr>itemId = 5, quantity = 2\<rparr>, \<lparr>itemId = 7, quantity = 1\<rparr>] 99 = 0"
proof -
  let ?xs = "[\<lparr>itemId = 5, quantity = 2\<rparr>, \<lparr>itemId = 7, quantity = 1\<rparr>]"
  have u: "unique_ids ?xs"
    by (simp add: unique_ids_def)
  have m: "\<lparr>itemId = 5, quantity = 2\<rparr> \<in> set ?xs" and n: "itemId \<lparr>itemId = 5, quantity = 2\<rparr> = 5"
    and a: "99 \<notin> itemId ` set ?xs"
    by simp_all
  from getItemQuantity_lookup [OF u, of 5] m n
  have "getItemQuantity ?xs 5 = quantity \<lparr>itemId = 5, quantity = 2\<rparr>"
    by blast
  moreover from getItemQuantity_lookup [OF u, of 99] a
  have "getItemQuantity ?xs 99 = 0"
    by blast
  ultimately show ?thesis using u by simp
qed

text \<open>
  C10. The \<^verbatim>\<open>|| 0\<close> of \<open>getItemQuantity\<close>. When the first entry with the identifier
  has quantity 0, the result is 0, the same as for the cart without that identifier;
  when it has a negative quantity, that quantity is returned as it is. \<open>js_or\<close> maps both
  \<^verbatim>\<open>undefined\<close> and 0 to 0. No entry with quantity 0 is in a cart reached from the
  initial, empty cart by the operations.
\<close>
theorem getItemQuantity_falsy:
  "(find (\<lambda>item. itemId item = i) xs = Some e \<and> quantity e = 0 \<longrightarrow>
      getItemQuantity xs i = 0
      \<and> getItemQuantity xs i = getItemQuantity (removeFromCart i xs) i)
   \<and> (find (\<lambda>item. itemId item = i) xs = Some e \<and> quantity e < 0 \<longrightarrow>
      getItemQuantity xs i = quantity e)
   \<and> js_or (Some 0) 0 = 0
   \<and> js_or None 0 = 0
   \<and> (\<forall>item \<in> set (cartItems (run acts)). quantity item \<noteq> 0)"
proof (intro conjI impI ballI)
  have gone: "getItemQuantity (removeFromCart i xs) i = 0"
  proof -
    have "i \<notin> itemId ` set (removeFromCart i xs)"
      by (auto simp: removeFromCart_def)
    then have "find (\<lambda>item. itemId item = i) (removeFromCart i xs) = None"
      by (simp add: find_id_None)
    then show ?thesis
      by (simp add: getItemQuantity_def opt_quantity_def js_or_def)
  qed
  show "getItemQuantity xs i = 0"
    if "find (\<lambda>item. itemId item = i) xs = Some e \<and> quantity e = 0"
    using that by (simp add: getItemQuantity_def opt_quantity_def js_or_def)
  then show "getItemQuantity xs i = getItemQuantity (removeFromCart i xs) i"
    if "find (\<lambda>item. itemId item = i) xs = Some e \<and> quantity e = 0"
    using that gone by simp
  show "getItemQuantity xs i = quantity e"
    if "find (\<lambda>item. itemId item = i) xs = Some e \<and> quantity e < 0"
    using that by (simp add: getItemQuantity_def opt_quantity_def js_or_def)
  show "js_or (Some 0) 0 = 0" and "js_or None 0 = 0"
    by (simp_all add: js_or_def)
  show "quantity item \<noteq> 0" if "item \<in> set (cartItems (run acts))" for item
  proof -
    have "positive_quantities (cartItems (run acts))"
      unfolding run_def using inv_initial inv_foldl by blast
    with that have "1 \<le> quantity item"
      by (simp add: positive_quantities_def list_all_iff)
    then show ?thesis by simp
  qed
qed

theorem getItemQuantity_falsy_witness:
  "find (\<lambda>item. itemId item = 5) [\<lparr>itemId = 5, quantity = 0\<rparr>, \<lparr>itemId = 7, quantity = 1\<rparr>]
     = Some \<lparr>itemId = 5, quantity = 0\<rparr>
   \<and> getItemQuantity [\<lparr>itemId = 5, quantity = 0\<rparr>, \<lparr>itemId = 7, quantity = 1\<rparr>] 5 = 0
   \<and> getItemQuantity [\<lparr>itemId = 7, quantity = 1\<rparr>] 5 = 0
   \<and> find (\<lambda>item. itemId item = 5) [\<lparr>itemId = 5, quantity = - 2\<rparr>, \<lparr>itemId = 7, quantity = 1\<rparr>]
     = Some \<lparr>itemId = 5, quantity = - 2\<rparr>
   \<and> getItemQuantity [\<lparr>itemId = 5, quantity = - 2\<rparr>, \<lparr>itemId = 7, quantity = 1\<rparr>] 5 = - 2
   \<and> \<lparr>itemId = 5, quantity = 1\<rparr> \<in> set (cartItems (run [IncreaseCartQuantity 5]))"
proof -
  let ?zs = "[\<lparr>itemId = 5, quantity = 0\<rparr>, \<lparr>itemId = 7, quantity = 1\<rparr>]"
  let ?ns = "[\<lparr>itemId = 5, quantity = - 2\<rparr>, \<lparr>itemId = 7, quantity = 1\<rparr>]"
  have z: "find (\<lambda>item. itemId item = 5) ?zs = Some \<lparr>itemId = 5, quantity = 0\<rparr>
           \<and> quantity \<lparr>itemId = 5, quantity = 0\<rparr> = 0"
    and n: "find (\<lambda>item. itemId item = 5) ?ns = Some \<lparr>itemId = 5, quantity = - 2\<rparr>
           \<and> quantity \<lparr>itemId = 5, quantity = - 2\<rparr> < 0"
    and r: "removeFromCart 5 ?zs = [\<lparr>itemId = 7, quantity = 1\<rparr>]"
    and m: "\<lparr>itemId = 5, quantity = 1\<rparr> \<in> set (cartItems (run [IncreaseCartQuantity 5]))"
    by (simp_all add: removeFromCart_def run_def initial_def setCartItems_def increaseCartQuantity_def)
  from getItemQuantity_falsy [of 5 ?zs "\<lparr>itemId = 5, quantity = 0\<rparr>" "[]"] z
  have "getItemQuantity ?zs 5 = 0 \<and> getItemQuantity ?zs 5 = getItemQuantity (removeFromCart 5 ?zs) 5"
    by blast
  moreover from getItemQuantity_falsy [of 5 ?ns "\<lparr>itemId = 5, quantity = - 2\<rparr>" "[]"] n
  have "getItemQuantity ?ns 5 = quantity \<lparr>itemId = 5, quantity = - 2\<rparr>"
    by blast
  moreover from getItemQuantity_falsy [of 5 ?zs "\<lparr>itemId = 5, quantity = 0\<rparr>" "[IncreaseCartQuantity 5]"] m
  have "quantity \<lparr>itemId = 5, quantity = 1\<rparr> \<noteq> 0"
    by blast
  ultimately show ?thesis using z n r m by simp
qed

section \<open>Order of the entries\<close>

text \<open>
  C9. For every entry list, the entries with another identifier than \<open>i\<close> are the same,
  in the same order, before and after each of \<open>increaseCartQuantity i\<close>,
  \<open>decreaseCartQuantity i\<close> and \<open>removeFromCart i\<close>. An increase of a present identifier
  keeps the sequence of identifiers as it is (the change is in place); an increase of an
  absent identifier appends the new entry at the end. A decrease keeps the sequence of
  identifiers or deletes the occurrences of \<open>i\<close> from it; a removal leaves a subsequence.
\<close>
theorem order_preserved:
  "filter (\<lambda>item. itemId item \<noteq> i) (increaseCartQuantity i xs)
     = filter (\<lambda>item. itemId item \<noteq> i) xs
   \<and> filter (\<lambda>item. itemId item \<noteq> i) (decreaseCartQuantity i xs)
     = filter (\<lambda>item. itemId item \<noteq> i) xs
   \<and> filter (\<lambda>item. itemId item \<noteq> i) (removeFromCart i xs)
     = filter (\<lambda>item. itemId item \<noteq> i) xs
   \<and> (i \<in> itemId ` set xs \<longrightarrow> map itemId (increaseCartQuantity i xs) = map itemId xs)
   \<and> (i \<notin> itemId ` set xs \<longrightarrow>
        increaseCartQuantity i xs = xs @ [\<lparr>itemId = i, quantity = 1\<rparr>])
   \<and> (map itemId (decreaseCartQuantity i xs) = map itemId xs
        \<or> map itemId (decreaseCartQuantity i xs) = filter (\<lambda>j. j \<noteq> i) (map itemId xs))
   \<and> subseq (map itemId (decreaseCartQuantity i xs)) (map itemId xs)
   \<and> subseq (removeFromCart i xs) xs"
proof (intro conjI impI)
  show "filter (\<lambda>item. itemId item \<noteq> i) (increaseCartQuantity i xs)
     = filter (\<lambda>item. itemId item \<noteq> i) xs"
    by (rule frame_increase)
  show "filter (\<lambda>item. itemId item \<noteq> i) (decreaseCartQuantity i xs)
     = filter (\<lambda>item. itemId item \<noteq> i) xs"
    by (rule frame_decrease)
  show "filter (\<lambda>item. itemId item \<noteq> i) (removeFromCart i xs)
     = filter (\<lambda>item. itemId item \<noteq> i) xs"
    by (rule frame_remove)
  show "map itemId (increaseCartQuantity i xs) = map itemId xs" if "i \<in> itemId ` set xs"
    using that by (simp add: ids_increase)
  show "increaseCartQuantity i xs = xs @ [\<lparr>itemId = i, quantity = 1\<rparr>]" if "i \<notin> itemId ` set xs"
    using that by (rule increase_absent)
  show "map itemId (decreaseCartQuantity i xs) = map itemId xs
        \<or> map itemId (decreaseCartQuantity i xs) = filter (\<lambda>j. j \<noteq> i) (map itemId xs)"
    by (simp add: ids_decrease)
  show "subseq (map itemId (decreaseCartQuantity i xs)) (map itemId xs)"
    by (simp add: ids_decrease)
  show "subseq (removeFromCart i xs) xs"
    by (simp add: removeFromCart_def)
qed

theorem order_preserved_witness:
  "increaseCartQuantity 7 [\<lparr>itemId = 5, quantity = 2\<rparr>, \<lparr>itemId = 7, quantity = 1\<rparr>, \<lparr>itemId = 9, quantity = 4\<rparr>]
     = [\<lparr>itemId = 5, quantity = 2\<rparr>, \<lparr>itemId = 7, quantity = 2\<rparr>, \<lparr>itemId = 9, quantity = 4\<rparr>]
   \<and> map itemId (increaseCartQuantity 7
        [\<lparr>itemId = 5, quantity = 2\<rparr>, \<lparr>itemId = 7, quantity = 1\<rparr>, \<lparr>itemId = 9, quantity = 4\<rparr>])
     = [5, 7, 9]
   \<and> increaseCartQuantity 3 [\<lparr>itemId = 5, quantity = 2\<rparr>, \<lparr>itemId = 7, quantity = 1\<rparr>, \<lparr>itemId = 9, quantity = 4\<rparr>]
     = [\<lparr>itemId = 5, quantity = 2\<rparr>, \<lparr>itemId = 7, quantity = 1\<rparr>, \<lparr>itemId = 9, quantity = 4\<rparr>,
        \<lparr>itemId = 3, quantity = 1\<rparr>]"
proof -
  let ?xs = "[\<lparr>itemId = 5, quantity = 2\<rparr>, \<lparr>itemId = 7, quantity = 1\<rparr>, \<lparr>itemId = 9, quantity = 4\<rparr>]"
  have p: "7 \<in> itemId ` set ?xs" and a: "3 \<notin> itemId ` set ?xs"
    by simp_all
  have e: "increaseCartQuantity 7 ?xs
     = [\<lparr>itemId = 5, quantity = 2\<rparr>, \<lparr>itemId = 7, quantity = 2\<rparr>, \<lparr>itemId = 9, quantity = 4\<rparr>]"
    by (simp add: increaseCartQuantity_def js_add_exact)
  from order_preserved [of 7 ?xs] p
  have "map itemId (increaseCartQuantity 7 ?xs) = map itemId ?xs"
    by blast
  moreover from order_preserved [of 3 ?xs] a
  have "increaseCartQuantity 3 ?xs = ?xs @ [\<lparr>itemId = 3, quantity = 1\<rparr>]"
    by blast
  ultimately show ?thesis using e by simp
qed

section \<open>The total\<close>

text \<open>
  C6, within the exact range. The total \<open>cartQuantity\<close> is computed from the entries alone (the state
  has no field for it) by adding the quantities in list order, and it is 0 for the empty
  cart. It is the sum of the \<open>quantity\<close> fields whenever every running sum, in list order,
  has a magnitude of at most \<open>2 ^ 53\<close>; in particular for every list of quantities that
  are not negative and whose sum is at most \<open>2 ^ 53\<close>, and so for every cart reached from
  the initial, empty cart whose sum is at most \<open>2 ^ 53\<close>.
\<close>

theorem cartQuantity_is_sum:
  "((\<forall>k \<le> length xs. \<bar>sum_list (map quantity (take k xs))\<bar> \<le> 2 ^ 53) \<longrightarrow>
      cartQuantity xs = Finite (sum_list (map quantity xs)))
   \<and> ((\<forall>item \<in> set xs. 0 \<le> quantity item) \<and> sum_list (map quantity xs) \<le> 2 ^ 53 \<longrightarrow>
      cartQuantity xs = Finite (sum_list (map quantity xs)))
   \<and> cartQuantity [] = Finite 0
   \<and> (sum_list (map quantity (cartItems (run acts))) \<le> 2 ^ 53 \<longrightarrow>
      cartQuantity (cartItems (run acts))
        = Finite (sum_list (map quantity (cartItems (run acts)))))"
proof (intro conjI impI)
  assume "\<forall>k \<le> length xs. \<bar>sum_list (map quantity (take k xs))\<bar> \<le> 2 ^ 53"
  then have "\<forall>k \<le> length xs. \<bar>0 + sum_list (map quantity (take k xs))\<bar> \<le> 2 ^ 53"
    by simp
  then show "cartQuantity xs = Finite (sum_list (map quantity xs))"
    unfolding cartQuantity_def using cartQuantity_foldl [of xs 0] by simp
next
  assume "(\<forall>item \<in> set xs. 0 \<le> quantity item) \<and> sum_list (map quantity xs) \<le> 2 ^ 53"
  then show "cartQuantity xs = Finite (sum_list (map quantity xs))"
    by (intro cartQuantity_nonneg) simp_all
next
  show "cartQuantity [] = Finite 0"
    by (simp add: cartQuantity_def)
next
  assume bound: "sum_list (map quantity (cartItems (run acts))) \<le> 2 ^ 53"
  have "positive_quantities (cartItems (run acts))"
    unfolding run_def using inv_initial inv_foldl by blast
  then have "\<forall>item \<in> set (cartItems (run acts)). 0 \<le> quantity item"
    by (auto simp: positive_quantities_def list_all_iff)
  with bound show "cartQuantity (cartItems (run acts))
        = Finite (sum_list (map quantity (cartItems (run acts))))"
    by (intro cartQuantity_nonneg)
qed

theorem cartQuantity_is_sum_witness:
  "0 \<le> quantity \<lparr>itemId = 5, quantity = 2\<rparr>
   \<and> 0 \<le> quantity \<lparr>itemId = 7, quantity = 1\<rparr>
   \<and> sum_list (map quantity [\<lparr>itemId = 5, quantity = 2\<rparr>, \<lparr>itemId = 7, quantity = 1\<rparr>]) = 3
   \<and> cartQuantity [\<lparr>itemId = 5, quantity = 2\<rparr>, \<lparr>itemId = 7, quantity = 1\<rparr>] = Finite 3
   \<and> cartItems (run [IncreaseCartQuantity 5, IncreaseCartQuantity 5])
       = [\<lparr>itemId = 5, quantity = 2\<rparr>]
   \<and> cartQuantity (cartItems (run [IncreaseCartQuantity 5, IncreaseCartQuantity 5])) = Finite 2"
proof -
  let ?xs = "[\<lparr>itemId = 5, quantity = 2\<rparr>, \<lparr>itemId = 7, quantity = 1\<rparr>]"
  let ?acts = "[IncreaseCartQuantity 5, IncreaseCartQuantity 5]"
  have n: "\<forall>item \<in> set ?xs. 0 \<le> quantity item"
    and s: "sum_list (map quantity ?xs) = 3"
    by simp_all
  have p: "\<forall>k \<le> length ?xs. \<bar>sum_list (map quantity (take k ?xs))\<bar> \<le> 2 ^ 53"
  proof (intro allI impI)
    fix k :: nat
    assume "k \<le> length ?xs"
    then consider "k = 0" | "k = Suc 0" | "k = Suc (Suc 0)"
      by (cases k rule: nat.exhaust [case_names zero suc]) (auto simp: le_Suc_eq)
    then show "\<bar>sum_list (map quantity (take k ?xs))\<bar> \<le> 2 ^ 53"
      by cases simp_all
  qed
  have r: "cartItems (run ?acts) = [\<lparr>itemId = 5, quantity = 2\<rparr>]"
    by (simp add: run_def initial_def setCartItems_def increaseCartQuantity_def js_add_exact)
  from n s have b: "(\<forall>item \<in> set ?xs. 0 \<le> quantity item) \<and> sum_list (map quantity ?xs) \<le> 2 ^ 53"
    by simp
  from r have br: "sum_list (map quantity (cartItems (run ?acts))) \<le> 2 ^ 53"
    by simp
  from cartQuantity_is_sum [of ?xs ?acts] p
  have "cartQuantity ?xs = Finite (sum_list (map quantity ?xs))"
    by blast
  moreover from cartQuantity_is_sum [of ?xs ?acts] b
  have "cartQuantity ?xs = Finite (sum_list (map quantity ?xs))"
    by blast
  moreover from cartQuantity_is_sum [of ?xs ?acts] br
  have "cartQuantity (cartItems (run ?acts)) = Finite (sum_list (map quantity (cartItems (run ?acts))))"
    by blast
  ultimately show ?thesis using n s r by simp
qed

text \<open>
  C6 without the range: each addition of the fold is rounded, so the total of the
  quantities \<open>2 ^ 53\<close> and 1 is \<open>2 ^ 53\<close> and not their sum.
\<close>

theorem cartQuantity_is_sum_counterexample:
  "cartQuantity [\<lparr>itemId = 1, quantity = 9007199254740992\<rparr>, \<lparr>itemId = 2, quantity = 1\<rparr>]
     = Finite 9007199254740992
   \<and> sum_list (map quantity [\<lparr>itemId = 1, quantity = 9007199254740992\<rparr>, \<lparr>itemId = 2, quantity = 1\<rparr>])
     = 9007199254740993
   \<and> is_number 9007199254740992
   \<and> unique_ids [\<lparr>itemId = 1, quantity = 9007199254740992\<rparr>, \<lparr>itemId = 2, quantity = 1\<rparr>]
   \<and> positive_quantities [\<lparr>itemId = 1, quantity = 9007199254740992\<rparr>, \<lparr>itemId = 2, quantity = 1\<rparr>]"
proof -
  have r: "round64 9007199254740993 = 9007199254740992"
    by code_simp
  have r': "round64 9007199254740992 = 9007199254740992"
    by (simp add: round64_exact)
  from r' have n: "is_number 9007199254740992"
    unfolding is_number_def by simp
  from r r' n show ?thesis
    by (simp add: cartQuantity_def nearest_def unique_ids_def positive_quantities_def)
qed

end
